theory Spec2Isabelle
  imports Main "HOL-Library.Word"
begin

unbundle bit_operations_syntax

section \<open>The TUN device packet engine of \<open>network/tun.go\<close>\<close>

text \<open>
  The Go package \<open>network\<close> opens \<open>/dev/net/tun\<close>, configures it with one ioctl and
  pumps packets between the device and two buffered channels. The embedding below
  follows the second (complete) version of \<open>tun.go\<close>, the one with \<open>Close\<close>,
  \<open>Read\<close> and \<open>Write\<close>.

  Everything outside the \<open>NetDevice\<close> struct is gathered in a record \<open>world\<close>:
  the handles the process holds open, the system calls issued so far, the lines given to
  \<open>log.Printf\<close>, and the contexts made by \<open>context.WithCancel\<close>. What the kernel
  answers to a system call is not computed by the program, so it is an argument of the
  operation that makes the call.
\<close>

subsection \<open>Constants and data\<close>

type_synonym byte = "8 word"
type_synonym fd = nat
type_synonym errno = nat

definition TUNSETIFF :: nat where "TUNSETIFF = 0x400454ca"
definition IFF_TUN :: "16 word" where "IFF_TUN = 0x0001"
definition IFF_NO_PI :: "16 word" where "IFF_NO_PI = 0x1000"
definition PACKET_SIZE :: nat where "PACKET_SIZE = 2048"
definition QUEUE_SIZE :: nat where "QUEUE_SIZE = 10"

text \<open>\<open>os.O_RDWR\<close> on Linux.\<close>

definition O_RDWR :: nat where "O_RDWR = 2"

text \<open>\<open>type ifreq struct { ifrName [16]byte; ifrFlags int16 }\<close>\<close>

record ifreq =
  ifrName :: "byte list"
  ifrFlags :: "16 word"

text \<open>
  A Go \<open>[]byte\<close> is a pointer, a length and a capacity. \<open>arr\<close> holds the bytes of
  the underlying array from the slice's first element up to its capacity, \<open>len\<close> is
  the length; the code only ever reslices from the start (\<open>s[:n]\<close>), so no offset is
  needed. Slices are values here: the package never writes into a buffer once it is
  part of a packet.
\<close>

record slice =
  arr :: "byte list"
  len :: nat

definition cap :: "slice \<Rightarrow> nat" where
  "cap s = length (arr s)"

text \<open>The bytes a slice shows: \<open>s[0], ..., s[len(s)-1]\<close>.\<close>

definition elems :: "slice \<Rightarrow> byte list" where
  "elems s = take (len s) (arr s)"

text \<open>\<open>make([]byte, n)\<close>: a new zeroed array of \<open>n\<close> bytes.\<close>

definition make_bytes :: "nat \<Rightarrow> slice" where
  "make_bytes n = \<lparr>arr = replicate n 0, len = n\<rparr>"

text \<open>The zero value of a slice, \<open>nil\<close>.\<close>

definition nil_slice :: slice where
  "nil_slice = \<lparr>arr = [], len = 0\<rparr>"

text \<open>
  \<open>s[:n]\<close>. Go checks the upper bound against the capacity, not the length, and
  panics (here \<open>None\<close>) beyond it.
\<close>

definition reslice :: "slice \<Rightarrow> nat \<Rightarrow> slice option" where
  "reslice s n = (if n \<le> cap s then Some (s\<lparr>len := n\<rparr>) else None)"

text \<open>\<open>copy(dst, src)\<close> on arrays: the first \<open>min(len(dst), len(src))\<close> bytes.\<close>

definition copy_bytes :: "byte list \<Rightarrow> byte list \<Rightarrow> byte list" where
  "copy_bytes dst src = (let n = min (length dst) (length src) in take n src @ drop n dst)"

text \<open>\<open>[]byte(str)\<close> of an ASCII string.\<close>

definition bytes_of :: "string \<Rightarrow> byte list" where
  "bytes_of str = map (\<lambda>c. of_nat (of_char c)) str"

text \<open>\<open>type Packet struct { Buf []byte; N uintptr }\<close>. No arithmetic is done on
  \<open>N\<close>, so it is modelled by its value.\<close>

record Packet =
  Buf :: slice
  N :: nat

definition zero_Packet :: Packet where
  "zero_Packet = \<lparr>Buf = nil_slice, N = 0\<rparr>"

text \<open>
  The errors the package makes with \<open>fmt.Errorf\<close>, one constructor for each format
  string: \<open>"open error: %s"\<close>, \<open>"ioctl error: %s"\<close>, \<open>"close error: %s"\<close>,
  \<open>"read error: %s"\<close>, \<open>"write error: %s"\<close>, \<open>"incoming queue is closed"\<close> and
  \<open>"device closed"\<close>. The argument is what \<open>%s\<close> stands for: the message of the
  error of package \<open>os\<close>, or the \<open>errno\<close> of the system call.
\<close>

datatype error =
    OpenError string
  | ConfigError errno
  | CloseError string
  | ReadError errno
  | WriteError errno
  | QueueClosedError
  | DeviceClosedError

text \<open>What a call does: it returns, it blocks (nothing it waits for can proceed), or
  it panics.\<close>

datatype 'a outcome = Returns 'a | Blocks | Panics

subsection \<open>The world outside the engine\<close>

datatype oscall =
    OpenFile string nat nat
  | Ioctl fd nat ifreq
  | CloseFile fd
  | SysRead fd nat
  | SysWrite fd "byte list"

record world =
  open_fds :: "fd set"
  calls :: "oscall list"
  logs :: "error list"
  ctx_done :: "nat \<Rightarrow> bool"
  ctx_count :: nat

text \<open>
  \<open>os.OpenFile(name, flag, perm)\<close>. The kernel's answer \<open>res\<close> is an error message
  or a new handle, which is then open.
\<close>

definition os_OpenFile :: "string \<Rightarrow> nat \<Rightarrow> nat \<Rightarrow> string + fd \<Rightarrow> world \<Rightarrow> (string + fd) \<times> world" where
  "os_OpenFile name flag perm res w =
     (let w1 = w\<lparr>calls := calls w @ [OpenFile name flag perm]\<rparr>
      in case res of
           Inl msg \<Rightarrow> (Inl msg, w1)
         | Inr f \<Rightarrow> (Inr f, w1\<lparr>open_fds := insert f (open_fds w1)\<rparr>))"

text \<open>
  \<open>(*os.File).Close\<close>. A file that was closed before gives \<open>os.ErrClosed\<close> and no
  system call; otherwise the handle is released, whatever the kernel answers
  (\<open>res\<close>: \<open>None\<close> for success, or the message of the error).
\<close>

definition file_Close :: "string option \<Rightarrow> fd \<Rightarrow> world \<Rightarrow> string option \<times> world" where
  "file_Close res f w =
     (if f \<notin> open_fds w then (Some ''file already closed'', w)
      else (res, w\<lparr>open_fds := open_fds w - {f}, calls := calls w @ [CloseFile f]\<rparr>))"

text \<open>
  \<open>(*os.File).Fd\<close>: the descriptor of the file while it is open. Closing the file
  sets its descriptor to -1, so on a closed file \<open>Fd\<close> gives \<open>^uintptr(0)\<close>.
\<close>

definition Fd :: "fd \<Rightarrow> world \<Rightarrow> fd" where
  "Fd f w = (if f \<in> open_fds w then f else 2 ^ 64 - 1)"

text \<open>\<open>syscall.Syscall(SYS_IOCTL, fd, req, &ifr)\<close>; the kernel answers an errno.\<close>

definition Syscall_IOCTL :: "fd \<Rightarrow> nat \<Rightarrow> ifreq \<Rightarrow> errno \<Rightarrow> world \<Rightarrow> errno \<times> world" where
  "Syscall_IOCTL f req ifr res w = (res, w\<lparr>calls := calls w @ [Ioctl f req ifr]\<rparr>)"

text \<open>
  \<open>syscall.Syscall(SYS_READ, fd, &buf[0], count)\<close>. The kernel's answer is the data
  it has for the caller and an errno. With errno 0 it stores at most \<open>count\<close> bytes at
  the start of the array and returns how many; otherwise the array is left alone and
  the first result is -1, which the caller ignores.
\<close>

definition Syscall_READ :: "fd \<Rightarrow> byte list \<Rightarrow> nat \<Rightarrow> byte list \<times> errno \<Rightarrow> world \<Rightarrow> (nat \<times> errno \<times> byte list) \<times> world" where
  "Syscall_READ f mem count res w =
     (let w1 = w\<lparr>calls := calls w @ [SysRead f count]\<rparr>;
          got = take count (fst res)
      in if snd res = 0 then ((length got, 0, got @ drop (length got) mem), w1)
         else ((2 ^ 64 - 1, snd res, mem), w1))"

text \<open>
  \<open>syscall.Syscall(SYS_WRITE, fd, &buf[0], count)\<close>: the bytes handed to the device
  are the \<open>count\<close> bytes at the pointer. The kernel answers how many it took and an
  errno.
\<close>

definition Syscall_WRITE :: "fd \<Rightarrow> byte list \<Rightarrow> nat \<Rightarrow> nat \<times> errno \<Rightarrow> world \<Rightarrow> (nat \<times> errno) \<times> world" where
  "Syscall_WRITE f mem count res w = (res, w\<lparr>calls := calls w @ [SysWrite f (take count mem)]\<rparr>)"

text \<open>\<open>log.Printf\<close> of an error.\<close>

definition log_Printf :: "error \<Rightarrow> world \<Rightarrow> world" where
  "log_Printf e w = w\<lparr>logs := logs w @ [e]\<rparr>"

text \<open>
  \<open>context.WithCancel(context.Background())\<close>: a new context, not cancelled. The
  context and its cancel function are both named by the context's number.
\<close>

definition WithCancel :: "world \<Rightarrow> nat \<times> world" where
  "WithCancel w =
     (let c = ctx_count w
      in (c, w\<lparr>ctx_done := (ctx_done w)(c := False), ctx_count := Suc c\<rparr>))"

text \<open>Calling the cancel function of context \<open>c\<close> closes its \<open>Done\<close> channel.\<close>

definition call_cancel :: "nat \<Rightarrow> world \<Rightarrow> world" where
  "call_cancel c w = w\<lparr>ctx_done := (ctx_done w)(c := True)\<rparr>"

subsection \<open>Channels\<close>

text \<open>
  A buffered \<open>chan Packet\<close>: the packets queued, oldest first, the capacity given to
  \<open>make\<close>, and whether \<open>close\<close> was called. Both queues of the engine have capacity
  10, so a send never has to meet a receiver.
\<close>

record chan =
  buf :: "Packet list"
  capacity :: nat
  closed :: bool

definition make_chan :: "nat \<Rightarrow> chan" where
  "make_chan n = \<lparr>buf = [], capacity = n, closed = False\<rparr>"

text \<open>\<open>ch <- p\<close>: panics on a closed channel, blocks on a full one.\<close>

definition chan_send :: "chan \<Rightarrow> Packet \<Rightarrow> chan outcome" where
  "chan_send q p =
     (if closed q then Panics
      else if length (buf q) < capacity q then Returns (q\<lparr>buf := buf q @ [p]\<rparr>)
      else Blocks)"

text \<open>\<open>p, ok := <-ch\<close>: the oldest packet; on an empty channel the zero value and
  \<open>false\<close> when it is closed, and otherwise the receiver blocks.\<close>

definition chan_recv :: "chan \<Rightarrow> ((Packet \<times> bool) \<times> chan) outcome" where
  "chan_recv q =
     (case buf q of
        p # ps \<Rightarrow> Returns ((p, True), q\<lparr>buf := ps\<rparr>)
      | [] \<Rightarrow> if closed q then Returns ((zero_Packet, False), q) else Blocks)"

subsection \<open>The engine\<close>

text \<open>
  \<open>type NetDevice struct\<close>. \<open>ctx\<close> and \<open>cancel\<close> are \<open>None\<close> when the field is
  \<open>nil\<close>, and otherwise name a context of the world.
\<close>

record NetDevice =
  file_fd :: fd
  incomingQueue :: chan
  outgoingQueue :: chan
  ctx :: "nat option"
  cancel :: "nat option"

text \<open>
  \<open>func NewTun() (*NetDevice, error)\<close>. \<open>open_res\<close> and \<open>ioctl_res\<close> are the
  kernel's answers to the open and to the ioctl.
\<close>

definition NewTun :: "string + fd \<Rightarrow> errno \<Rightarrow> world \<Rightarrow> (error + NetDevice) \<times> world" where
  "NewTun open_res ioctl_res w =
     (case os_OpenFile ''/dev/net/tun'' O_RDWR 0 open_res w of
        (Inl err, w1) \<Rightarrow> (Inl (OpenError err), w1)
      | (Inr f, w1) \<Rightarrow>
          let ifr = \<lparr>ifrName = replicate 16 0, ifrFlags = 0\<rparr>;
              ifr = ifr\<lparr>ifrName := copy_bytes (ifrName ifr) (bytes_of ''tun0'')\<rparr>;
              ifr = ifr\<lparr>ifrFlags := IFF_TUN OR IFF_NO_PI\<rparr>;
              (sysErr, w2) = Syscall_IOCTL (Fd f w1) TUNSETIFF ifr ioctl_res w1
          in if sysErr \<noteq> 0 then (Inl (ConfigError sysErr), w2)
             else (Inr \<lparr>file_fd = f,
                        incomingQueue = make_chan QUEUE_SIZE,
                        outgoingQueue = make_chan QUEUE_SIZE,
                        ctx = None, cancel = None\<rparr>, w2))"

text \<open>The configuration requests among the system calls made.\<close>

fun is_Ioctl :: "oscall \<Rightarrow> bool" where
  "is_Ioctl (Ioctl f req ifr) = True"
| "is_Ioctl c = False"

text \<open>
  \<open>func (t *NetDevice) Close() error\<close>. \<open>close_res\<close> is the kernel's answer to
  the close. Calling the \<open>nil\<close> function panics, after the file was closed.
\<close>

definition Close :: "string option \<Rightarrow> NetDevice \<Rightarrow> world \<Rightarrow> error option outcome \<times> world" where
  "Close close_res t w =
     (case file_Close close_res (file_fd t) w of
        (Some err, w1) \<Rightarrow> (Returns (Some (CloseError err)), w1)
      | (None, w1) \<Rightarrow>
          (case cancel t of
             None \<Rightarrow> (Panics, w1)
           | Some c \<Rightarrow> (Returns None, call_cancel c w1)))"

text \<open>
  \<open>func (t *NetDevice) read(buf []byte) (uintptr, error)\<close>. Taking \<open>&buf[0]\<close> of an
  empty slice panics (\<open>None\<close>). The system call is made on \<open>t.file.Fd()\<close>. The slice
  is returned with what the kernel stored in its array.
\<close>

definition read :: "byte list \<times> errno \<Rightarrow> NetDevice \<Rightarrow> slice \<Rightarrow> world \<Rightarrow> ((nat \<times> error option) \<times> slice) option \<times> world" where
  "read res t b w =
     (if len b = 0 then (None, w)
      else case Syscall_READ (Fd (file_fd t) w) (arr b) (len b) res w of
             ((n, sysErr, mem), w1) \<Rightarrow>
               if sysErr \<noteq> 0 then (Some ((0, Some (ReadError sysErr)), b\<lparr>arr := mem\<rparr>), w1)
               else (Some ((n, None), b\<lparr>arr := mem\<rparr>), w1))"

text \<open>\<open>func (t *NetDevice) write(buf []byte) (uintptr, error)\<close>, with the same panic on
  an empty slice.\<close>

definition write_sys :: "nat \<times> errno \<Rightarrow> NetDevice \<Rightarrow> slice \<Rightarrow> world \<Rightarrow> (nat \<times> error option) option \<times> world" where
  "write_sys res t b w =
     (if len b = 0 then (None, w)
      else case Syscall_WRITE (Fd (file_fd t) w) (arr b) (len b) res w of
             ((n, sysErr), w1) \<Rightarrow>
               if sysErr \<noteq> 0 then (Some (0, Some (WriteError sysErr)), w1)
               else (Some (n, None), w1))"

text \<open>
  A \<open>select\<close> with two communication cases and no default: the case that runs, given
  which of the two can proceed. When both can, the Go runtime picks one at random:
  \<open>pick\<close>. When none can, the goroutine blocks (\<open>None\<close>).
\<close>

datatype choice = First | Second

definition select2 :: "choice \<Rightarrow> bool \<Rightarrow> bool \<Rightarrow> choice option" where
  "select2 pick r1 r2 =
     (if r1 \<and> r2 then Some pick else if r1 then Some First else if r2 then Some Second else None)"

text \<open>Whether a send or a receive on the channel can proceed (a send on a closed
  channel proceeds, to panic).\<close>

definition send_ready :: "chan \<Rightarrow> bool" where
  "send_ready q = (closed q \<or> length (buf q) < capacity q)"

definition recv_ready :: "chan \<Rightarrow> bool" where
  "recv_ready q = (buf q \<noteq> [] \<or> closed q)"

text \<open>
  \<open>func (tun *NetDevice) Bind()\<close> makes the context and starts the two goroutines.
  The assignment to the fields is \<open>Bind\<close>; the goroutines are the two step functions
  below.
\<close>

definition Bind :: "NetDevice \<Rightarrow> world \<Rightarrow> NetDevice \<times> world" where
  "Bind tun w = (case WithCancel w of (c, w1) \<Rightarrow> (tun\<lparr>ctx := Some c, cancel := Some c\<rparr>, w1))"

text \<open>
  The read pump. It is at the head of its loop (\<open>RLoop\<close>), at the statement
  \<open>tun.incomingQueue <- packet\<close> with the packet it built (\<open>RSend\<close>), has returned
  (\<open>RExit\<close>) or has panicked (\<open>RCrash\<close>). One step from \<open>RLoop\<close> runs the
  \<open>select\<close> and, in the default case, the body up to the send; one step from
  \<open>RSend\<close> is the send, which stays where it is while the queue is full.
  \<open>res\<close> is the kernel's answer to the read.
\<close>

datatype rp_state = RLoop | RSend Packet | RExit | RCrash

definition read_pump_step :: "byte list \<times> errno \<Rightarrow> rp_state \<Rightarrow> NetDevice \<Rightarrow> world \<Rightarrow> rp_state \<times> NetDevice \<times> world" where
  "read_pump_step res st tun w =
     (case st of
        RLoop \<Rightarrow>
          (case ctx tun of
             None \<Rightarrow> (RCrash, tun, w)
           | Some c \<Rightarrow>
               if ctx_done w c then (RExit, tun, w)
               else
                 let b = make_bytes PACKET_SIZE
                 in (case read res tun b w of
                       (None, w1) \<Rightarrow> (RCrash, tun, w1)
                     | (Some ((n, err), b1), w1) \<Rightarrow>
                         let w2 = (case err of Some e \<Rightarrow> log_Printf e w1 | None \<Rightarrow> w1)
                         in (case reslice b1 n of
                               None \<Rightarrow> (RCrash, tun, w2)
                             | Some b2 \<Rightarrow> (RSend \<lparr>Buf = b2, N = n\<rparr>, tun, w2))))
      | RSend packet \<Rightarrow>
          (case chan_send (incomingQueue tun) packet of
             Returns q \<Rightarrow> (RLoop, tun\<lparr>incomingQueue := q\<rparr>, w)
           | Blocks \<Rightarrow> (RSend packet, tun, w)
           | Panics \<Rightarrow> (RCrash, tun, w))
      | RExit \<Rightarrow> (RExit, tun, w)
      | RCrash \<Rightarrow> (RCrash, tun, w))"

text \<open>One whole iteration of the read pump: from the head of the loop through the send.
  It ends in \<open>RLoop\<close> when the iteration is complete, and in \<open>RSend\<close> when the
  send is waiting for room in the queue.\<close>

definition read_pump_iteration :: "byte list \<times> errno \<Rightarrow> NetDevice \<Rightarrow> world \<Rightarrow> rp_state \<times> NetDevice \<times> world" where
  "read_pump_iteration res tun w =
     (case read_pump_step res RLoop tun w of
        (RSend packet, tun1, w1) \<Rightarrow> read_pump_step res (RSend packet) tun1 w1
      | r \<Rightarrow> r)"

text \<open>
  The write pump: one step is one pass through its \<open>select\<close>, whose first case is
  \<open><-tun.ctx.Done()\<close> and whose second is the receive from the outgoing queue. \<open>res\<close> is
  the kernel's answer to the write.
\<close>

datatype wp_state = WLoop | WExit | WCrash

definition write_pump_step :: "choice \<Rightarrow> nat \<times> errno \<Rightarrow> wp_state \<Rightarrow> NetDevice \<Rightarrow> world \<Rightarrow> wp_state \<times> NetDevice \<times> world" where
  "write_pump_step pick res st tun w =
     (case st of
        WLoop \<Rightarrow>
          (case ctx tun of
             None \<Rightarrow> (WCrash, tun, w)
           | Some c \<Rightarrow>
               (case select2 pick (ctx_done w c) (recv_ready (outgoingQueue tun)) of
                  None \<Rightarrow> (WLoop, tun, w)
                | Some First \<Rightarrow> (WExit, tun, w)
                | Some Second \<Rightarrow>
                    (case chan_recv (outgoingQueue tun) of
                       Returns ((pkt, ok), q) \<Rightarrow>
                         let tun1 = tun\<lparr>outgoingQueue := q\<rparr>
                         in (case reslice (Buf pkt) (N pkt) of
                               None \<Rightarrow> (WCrash, tun1, w)
                             | Some b \<Rightarrow>
                                 (case write_sys res tun1 b w of
                                    (None, w1) \<Rightarrow> (WCrash, tun1, w1)
                                  | (Some (n, err), w1) \<Rightarrow>
                                      (WLoop, tun1,
                                       case err of Some e \<Rightarrow> log_Printf e w1 | None \<Rightarrow> w1)))
                     | Blocks \<Rightarrow> (WLoop, tun, w)
                     | Panics \<Rightarrow> (WCrash, tun, w))))
      | WExit \<Rightarrow> (WExit, tun, w)
      | WCrash \<Rightarrow> (WCrash, tun, w))"

text \<open>\<open>func (t *NetDevice) Read() (Packet, error)\<close>\<close>

definition Read :: "NetDevice \<Rightarrow> ((Packet \<times> error option) \<times> NetDevice) outcome" where
  "Read t =
     (case chan_recv (incomingQueue t) of
        Returns ((pkt, ok), q) \<Rightarrow>
          if \<not> ok then Returns ((zero_Packet, Some QueueClosedError), t\<lparr>incomingQueue := q\<rparr>)
          else Returns ((pkt, None), t\<lparr>incomingQueue := q\<rparr>)
      | Blocks \<Rightarrow> Blocks
      | Panics \<Rightarrow> Panics)"

text \<open>
  \<open>func (t *NetDevice) Write(pkt Packet) error\<close>. The channel operands of a
  \<open>select\<close> are evaluated on entering it, so \<open>t.ctx.Done()\<close> on a \<open>nil\<close> context
  panics before anything is sent. The first case is the send, the second
  \<open><-t.ctx.Done()\<close>.
\<close>

definition Write :: "choice \<Rightarrow> Packet \<Rightarrow> NetDevice \<Rightarrow> world \<Rightarrow> (error option \<times> NetDevice) outcome" where
  "Write pick pkt t w =
     (case ctx t of
        None \<Rightarrow> Panics
      | Some c \<Rightarrow>
          (case select2 pick (send_ready (outgoingQueue t)) (ctx_done w c) of
             None \<Rightarrow> Blocks
           | Some First \<Rightarrow>
               (case chan_send (outgoingQueue t) pkt of
                  Returns q \<Rightarrow> Returns (None, t\<lparr>outgoingQueue := q\<rparr>)
                | Blocks \<Rightarrow> Blocks
                | Panics \<Rightarrow> Panics)
           | Some Second \<Rightarrow> Returns (Some DeviceClosedError, t)))"

subsection \<open>Runs of the whole engine\<close>

text \<open>
  The engine with its goroutines: the struct, the world, and the state of every pump
  that \<open>Bind\<close> has started. A run is a list of actions: the calls of the public
  functions by the users of the engine and the steps of the pumps, in the order in
  which they happen, each with the kernel's answer and the runtime's pick where it has
  one. A call that blocks or panics in its caller leaves the engine as it is (apart
  from what it did before); a pump that panics takes the process down, and nothing
  happens after that.
\<close>

record system =
  dev :: NetDevice
  env :: world
  rpumps :: "rp_state list"
  wpumps :: "wp_state list"

datatype action =
    CallBind
  | CallRead
  | CallWrite choice Packet
  | CallClose "string option"
  | StepReadPump nat "byte list \<times> errno"
  | StepWritePump nat choice "nat \<times> errno"

definition crashed :: "system \<Rightarrow> bool" where
  "crashed s = (RCrash \<in> set (rpumps s) \<or> WCrash \<in> set (wpumps s))"

fun act :: "action \<Rightarrow> system \<Rightarrow> system" where
  "act CallBind s =
     (case Bind (dev s) (env s) of
        (t, w) \<Rightarrow> s\<lparr>dev := t, env := w, rpumps := rpumps s @ [RLoop], wpumps := wpumps s @ [WLoop]\<rparr>)"
| "act CallRead s =
     (case Read (dev s) of Returns (r, t) \<Rightarrow> s\<lparr>dev := t\<rparr> | Blocks \<Rightarrow> s | Panics \<Rightarrow> s)"
| "act (CallWrite pick pkt) s =
     (case Write pick pkt (dev s) (env s) of Returns (r, t) \<Rightarrow> s\<lparr>dev := t\<rparr> | Blocks \<Rightarrow> s | Panics \<Rightarrow> s)"
| "act (CallClose res) s =
     (case Close res (dev s) (env s) of (r, w) \<Rightarrow> s\<lparr>env := w\<rparr>)"
| "act (StepReadPump i res) s =
     (if i < length (rpumps s)
      then case read_pump_step res (rpumps s ! i) (dev s) (env s) of
             (st, t, w) \<Rightarrow> s\<lparr>dev := t, env := w, rpumps := (rpumps s)[i := st]\<rparr>
      else s)"
| "act (StepWritePump i pick res) s =
     (if i < length (wpumps s)
      then case write_pump_step pick res (wpumps s ! i) (dev s) (env s) of
             (st, t, w) \<Rightarrow> s\<lparr>dev := t, env := w, wpumps := (wpumps s)[i := st]\<rparr>
      else s)"

definition step :: "action \<Rightarrow> system \<Rightarrow> system" where
  "step a s = (if crashed s then s else act a s)"

fun run :: "action list \<Rightarrow> system \<Rightarrow> system" where
  "run [] s = s"
| "run (a # as) s = run as (step a s)"

text \<open>The engine as \<open>NewTun\<close> returns it: no pump is running.\<close>

definition constructed :: "NetDevice \<Rightarrow> world \<Rightarrow> system" where
  "constructed t w = \<lparr>dev = t, env = w, rpumps = [], wpumps = []\<rparr>"

text \<open>A world in which nothing has happened yet.\<close>

definition fresh_world :: world where
  "fresh_world = \<lparr>open_fds = {}, calls = [], logs = [], ctx_done = (\<lambda>c. False), ctx_count = 0\<rparr>"

text \<open>
  The engine that \<open>NewTun\<close> returns in a fresh world when the kernel answers the open
  with handle 3 and accepts the ioctl, and the same engine after \<open>Bind\<close>.
\<close>

definition new_tun :: NetDevice where
  "new_tun = \<lparr>file_fd = 3, incomingQueue = make_chan QUEUE_SIZE,
               outgoingQueue = make_chan QUEUE_SIZE, ctx = None, cancel = None\<rparr>"

definition new_world :: world where
  "new_world = snd (NewTun (Inr 3) 0 fresh_world)"

definition bound_tun :: NetDevice where
  "bound_tun = fst (Bind new_tun new_world)"

definition bound_world :: world where
  "bound_world = snd (Bind new_tun new_world)"

subsection \<open>What is observed of a queue along a run\<close>

text \<open>
  One step changes the contents of a queue in first-in-first-out manner when it leaves
  them alone, appends one packet at the back, or removes the packet at the front.
\<close>

definition fifo_step :: "Packet list \<Rightarrow> Packet list \<Rightarrow> bool" where
  "fifo_step old new = (new = old \<or> (new \<noteq> [] \<and> butlast new = old) \<or> (old \<noteq> [] \<and> new = tl old))"

text \<open>
  The packets put into a queue of the engine along a run, in the order in which they
  were put, and the packets taken out of it, in the order in which they were taken.
  \<open>sel\<close> is \<open>incomingQueue\<close> or \<open>outgoingQueue\<close>. A step puts or takes at most one
  packet, so the lengths before and after tell which it was.
\<close>

fun enqueued :: "(NetDevice \<Rightarrow> chan) \<Rightarrow> action list \<Rightarrow> system \<Rightarrow> Packet list" where
  "enqueued sel [] s = []"
| "enqueued sel (a # as) s =
     (let old = buf (sel (dev s)); new = buf (sel (dev (step a s)))
      in (if length new = Suc (length old) then [last new] else []) @ enqueued sel as (step a s))"

fun dequeued :: "(NetDevice \<Rightarrow> chan) \<Rightarrow> action list \<Rightarrow> system \<Rightarrow> Packet list" where
  "dequeued sel [] s = []"
| "dequeued sel (a # as) s =
     (let old = buf (sel (dev s)); new = buf (sel (dev (step a s)))
      in (if Suc (length new) = length old then [hd old] else []) @ dequeued sel as (step a s))"

text \<open>The state of a queue that the engine keeps: the capacity it was made with, not
  closed, and never more packets than the capacity.\<close>

definition queue_ok :: "chan \<Rightarrow> bool" where
  "queue_ok q = (capacity q = QUEUE_SIZE \<and> \<not> closed q \<and> length (buf q) \<le> QUEUE_SIZE)"

text \<open>What one step may do to the engine struct, as far as the handle and the queues go.\<close>

definition dev_step :: "NetDevice \<Rightarrow> NetDevice \<Rightarrow> bool" where
  "dev_step t t' =
     (file_fd t' = file_fd t \<and>
      queue_ok (incomingQueue t') \<and> queue_ok (outgoingQueue t') \<and>
      fifo_step (buf (incomingQueue t)) (buf (incomingQueue t')) \<and>
      fifo_step (buf (outgoingQueue t)) (buf (outgoingQueue t')))"

text \<open>The fields that \<open>Bind\<close> assigns.\<close>

definition bound_fields :: "NetDevice \<Rightarrow> nat option \<times> nat option" where
  "bound_fields t = (ctx t, cancel t)"

text \<open>A two-byte packet, and the started engine with its outgoing queue full of it.\<close>

definition ping :: Packet where
  "ping = \<lparr>Buf = \<lparr>arr = [0x45, 0x00], len = 2\<rparr>, N = 2\<rparr>"

definition full_tun :: NetDevice where
  "full_tun = bound_tun\<lparr>outgoingQueue := (outgoingQueue bound_tun)\<lparr>buf := replicate QUEUE_SIZE ping\<rparr>\<rparr>"

definition pong :: Packet where
  "pong = \<lparr>Buf = \<lparr>arr = [0x60, 0x00, 0x00], len = 3\<rparr>, N = 3\<rparr>"

text \<open>A run of the engine: start it, submit two packets, let the write pump take one, and
  close.\<close>

definition demo_run :: "action list" where
  "demo_run = [CallBind, CallWrite First ping, CallWrite First pong,
               StepWritePump 0 First (2, 0), CallClose None]"

text \<open>The started engine with two packets waiting in its incoming queue.\<close>

definition fed_tun :: NetDevice where
  "fed_tun = bound_tun\<lparr>incomingQueue := (incomingQueue bound_tun)\<lparr>buf := [ping, pong]\<rparr>\<rparr>"

text \<open>
  The packet the read pump builds when its read has failed: \<open>buf[:0]\<close> of a new
  buffer, with \<open>N = 0\<close>.
\<close>

definition empty_packet :: Packet where
  "empty_packet = \<lparr>Buf = \<lparr>arr = replicate PACKET_SIZE 0, len = 0\<rparr>, N = 0\<rparr>"

text \<open>
  A run in which the engine is closed while a packet waits in the outgoing queue, and
  the \<open>select\<close> of the write pump then runs the receive: the kernel answers the write
  with errno 9.
\<close>

definition late_run :: "action list" where
  "late_run = [CallBind, CallWrite First pong, CallClose None, StepWritePump 0 Second (0, 9)]"

text \<open>
  What the program of \<open>test/network/main.go\<close> does when the first read of the device
  fails with errno 5: it starts the engine, the read pump runs one iteration, \<open>Read\<close>
  returns the packet, the program hands that packet to \<open>Write\<close>, and the write pump
  takes it.
\<close>

definition echo_run :: "action list" where
  "echo_run = [CallBind, StepReadPump 0 ([], 5), StepReadPump 0 ([], 5), CallRead,
               CallWrite First empty_packet, StepWritePump 0 First (0, 0)]"

text \<open>The started engine with one packet waiting in its outgoing queue.\<close>

definition loaded_tun :: "Packet \<Rightarrow> NetDevice" where
  "loaded_tun p = bound_tun\<lparr>outgoingQueue := (outgoingQueue bound_tun)\<lparr>buf := [p]\<rparr>\<rparr>"

section \<open>Properties\<close>

subsection \<open>The constructor\<close>

lemma tun0_name:
  "copy_bytes (replicate 16 0) (bytes_of ''tun0'') =
     [0x74, 0x75, 0x6e, 0x30, 0, 0, 0, 0, 0, 0, 0, 0, 0, 0, 0, 0]"
  by (simp add: copy_bytes_def bytes_of_def eval_nat_numeral)

lemma tun0_flags: "IFF_TUN OR IFF_NO_PI = (0x1001 :: 16 word)"
  by (simp add: IFF_TUN_def IFF_NO_PI_def)

lemma NewTun_open_fails:
  "NewTun (Inl msg) e w =
     (Inl (OpenError msg), w\<lparr>calls := calls w @ [OpenFile ''/dev/net/tun'' O_RDWR 0]\<rparr>)"
  by (simp add: NewTun_def os_OpenFile_def)

lemma NewTun_opened:
  "NewTun (Inr f) e w =
     (if e \<noteq> 0 then Inl (ConfigError e)
      else Inr \<lparr>file_fd = f, incomingQueue = make_chan QUEUE_SIZE,
                outgoingQueue = make_chan QUEUE_SIZE, ctx = None, cancel = None\<rparr>,
      w\<lparr>calls := calls w @ [OpenFile ''/dev/net/tun'' O_RDWR 0,
            Ioctl f TUNSETIFF
              \<lparr>ifrName = [0x74, 0x75, 0x6e, 0x30, 0, 0, 0, 0, 0, 0, 0, 0, 0, 0, 0, 0],
               ifrFlags = 0x1001\<rparr>],
         open_fds := insert f (open_fds w)\<rparr>)"
  by (simp add: NewTun_def os_OpenFile_def Syscall_IOCTL_def Fd_def tun0_name tun0_flags)

text \<open>
  Claim C5. When the control device opens, \<open>NewTun\<close> makes exactly two system calls:
  the open of \<open>/dev/net/tun\<close> and one ioctl \<open>TUNSETIFF\<close> on the handle it got, whose
  request has the flags \<open>IFF_TUN | IFF_NO_PI = 0x1001\<close> and the 16-byte name field
  \<open>"tun0"\<close> followed by twelve zero bytes. A rejected request gives the ioctl error
  (\<open>ConfigError\<close>), an accepted one the engine. When the open fails, the result is the
  open error (\<open>OpenError\<close>) and no configuration request is made.
\<close>

theorem NewTun_configuration_request:
  "(open_res = Inr f \<longrightarrow>
      calls (snd (NewTun open_res ioctl_res w)) =
        calls w @ [OpenFile ''/dev/net/tun'' O_RDWR 0,
                   Ioctl f TUNSETIFF
                     \<lparr>ifrName = [0x74, 0x75, 0x6e, 0x30, 0, 0, 0, 0, 0, 0, 0, 0, 0, 0, 0, 0],
                      ifrFlags = IFF_TUN OR IFF_NO_PI\<rparr>] \<and>
      (ioctl_res \<noteq> 0 \<longrightarrow> fst (NewTun open_res ioctl_res w) = Inl (ConfigError ioctl_res)) \<and>
      (ioctl_res = 0 \<longrightarrow> (\<exists>t. fst (NewTun open_res ioctl_res w) = Inr t \<and> file_fd t = f)))
   \<and> (open_res = Inl msg \<longrightarrow>
        fst (NewTun open_res ioctl_res w) = Inl (OpenError msg) \<and>
        filter is_Ioctl (calls (snd (NewTun open_res ioctl_res w))) = filter is_Ioctl (calls w))
   \<and> IFF_TUN OR IFF_NO_PI = (0x1001 :: 16 word)
   \<and> IFF_TUN = 0x0001 \<and> IFF_NO_PI = 0x1000 \<and> TUNSETIFF = 0x400454ca
   \<and> [0x74, 0x75, 0x6e, 0x30] = bytes_of ''tun0''"
proof -
  have name: "bytes_of ''tun0'' = [0x74, 0x75, 0x6e, 0x30]"
    by (simp add: bytes_of_def)
  show ?thesis
    by (simp add: NewTun_opened NewTun_open_fails tun0_flags name)
       (simp add: IFF_TUN_def IFF_NO_PI_def TUNSETIFF_def)
qed

theorem NewTun_configuration_request_witness:
  "calls (snd (NewTun (Inr 3) 0 fresh_world)) =
     [OpenFile ''/dev/net/tun'' O_RDWR 0,
      Ioctl 3 TUNSETIFF
        \<lparr>ifrName = [0x74, 0x75, 0x6e, 0x30, 0, 0, 0, 0, 0, 0, 0, 0, 0, 0, 0, 0],
         ifrFlags = IFF_TUN OR IFF_NO_PI\<rparr>]
   \<and> (\<exists>t. fst (NewTun (Inr 3) 0 fresh_world) = Inr t \<and> file_fd t = 3)
   \<and> fst (NewTun (Inr 3) 16 fresh_world) = Inl (ConfigError 16)
   \<and> fst (NewTun (Inl ''permission denied'') 0 fresh_world) = Inl (OpenError ''permission denied'')"
  using NewTun_configuration_request [of "Inr 3" 3 0 fresh_world "''x''"]
    NewTun_configuration_request [of "Inr 3" 3 16 fresh_world "''x''"]
    NewTun_configuration_request [of "Inl ''permission denied''" 3 0 fresh_world "''permission denied''"]
  by (simp add: fresh_world_def)

text \<open>
  Claim C2, as the code has it. When the open succeeds and the configuration request
  is rejected, \<open>NewTun\<close> returns the ioctl error and no engine; it does not close the
  handle it opened: the handle is still open when the error is returned, and no close
  is among the system calls the constructor made.
\<close>

theorem NewTun_config_failure_leaves_handle_open:
  assumes "ioctl_res \<noteq> 0"
  shows "fst (NewTun (Inr f) ioctl_res w) = Inl (ConfigError ioctl_res)
    \<and> f \<in> open_fds (snd (NewTun (Inr f) ioctl_res w))
    \<and> CloseFile f \<notin> set (drop (length (calls w)) (calls (snd (NewTun (Inr f) ioctl_res w))))"
  using assms by (simp add: NewTun_opened)

theorem NewTun_config_failure_leaves_handle_open_witness:
  "(16::nat) \<noteq> 0 \<and> fst (NewTun (Inr 3) 16 fresh_world) = Inl (ConfigError 16)
    \<and> 3 \<in> open_fds (snd (NewTun (Inr 3) 16 fresh_world))
    \<and> CloseFile 3 \<notin> set (drop (length (calls fresh_world)) (calls (snd (NewTun (Inr 3) 16 fresh_world))))"
  using NewTun_config_failure_leaves_handle_open [of 16 3 fresh_world] by simp

text \<open>
  The claim as the specification states it (the handle is closed before the error is
  returned) fails: with the open answered by handle 3 and the ioctl by errno 16, the
  constructor returns the error, handle 3 is open, and the open and the ioctl are the
  only system calls.
\<close>

theorem NewTun_handle_not_closed_counterexample:
  "fst (NewTun (Inr 3) 16 fresh_world) = Inl (ConfigError 16)
   \<and> open_fds (snd (NewTun (Inr 3) 16 fresh_world)) = {3}
   \<and> calls (snd (NewTun (Inr 3) 16 fresh_world)) =
       [OpenFile ''/dev/net/tun'' 2 0,
        Ioctl 3 0x400454ca \<lparr>ifrName = [0x74, 0x75, 0x6e, 0x30, 0, 0, 0, 0, 0, 0, 0, 0, 0, 0, 0, 0],
                         ifrFlags = 0x1001\<rparr>]"
  by (simp add: NewTun_opened fresh_world_def O_RDWR_def TUNSETIFF_def)

subsection \<open>The engines used as examples\<close>

lemma new_tun_constructed: "NewTun (Inr 3) 0 fresh_world = (Inr new_tun, new_world)"
  by (simp add: new_world_def new_tun_def NewTun_opened)

lemma new_world_eval:
  "open_fds new_world = {3} \<and> ctx_done new_world = (\<lambda>c. False) \<and> ctx_count new_world = 0
   \<and> logs new_world = []"
  by (simp add: new_world_def NewTun_opened fresh_world_def)

lemma bound_tun_eval:
  "bound_tun = new_tun\<lparr>ctx := Some 0, cancel := Some 0\<rparr>"
  by (simp add: bound_tun_def Bind_def WithCancel_def new_world_eval)

lemma bound_world_eval:
  "open_fds bound_world = {3} \<and> \<not> ctx_done bound_world 0 \<and> ctx_count bound_world = 1
   \<and> logs bound_world = []"
  by (simp add: bound_world_def Bind_def WithCancel_def new_world_eval)

subsection \<open>Close\<close>

lemma Close_cases:
  "Close res t w =
     (if file_fd t \<notin> open_fds w then (Returns (Some (CloseError ''file already closed'')), w)
      else case res of
             Some msg \<Rightarrow>
               (Returns (Some (CloseError msg)),
                w\<lparr>open_fds := open_fds w - {file_fd t}, calls := calls w @ [CloseFile (file_fd t)]\<rparr>)
           | None \<Rightarrow>
               (case cancel t of
                  None \<Rightarrow> (Panics, w\<lparr>open_fds := open_fds w - {file_fd t},
                                     calls := calls w @ [CloseFile (file_fd t)]\<rparr>)
                | Some c \<Rightarrow> (Returns None,
                    call_cancel c (w\<lparr>open_fds := open_fds w - {file_fd t},
                                     calls := calls w @ [CloseFile (file_fd t)]\<rparr>))))"
  by (simp add: Close_def file_Close_def split: option.splits)

text \<open>
  Claim C4, as the code has it. On a started engine every call to \<open>Close\<close> returns,
  with success or with the close error (\<open>CloseError\<close>), and afterwards the handle is
  not open. It succeeds exactly when the handle was open and the kernel released it
  without error. On success the token is set. On failure \<open>Close\<close> has returned
  before \<open>t.cancel()\<close>: the contexts are as they were, and the token is set only if it
  was before.
\<close>

theorem Close_started:
  assumes "ctx t = Some c" and "cancel t = Some c"
  shows "(fst (Close res t w) = Returns None \<or>
          (\<exists>msg. fst (Close res t w) = Returns (Some (CloseError msg))))
     \<and> file_fd t \<notin> open_fds (snd (Close res t w))
     \<and> (fst (Close res t w) = Returns None \<longleftrightarrow> file_fd t \<in> open_fds w \<and> res = None)
     \<and> (fst (Close res t w) = Returns None \<longrightarrow> ctx_done (snd (Close res t w)) c)
     \<and> (fst (Close res t w) \<noteq> Returns None \<longrightarrow> ctx_done (snd (Close res t w)) = ctx_done w)"
  using assms by (cases res) (simp_all add: Close_cases call_cancel_def)

theorem Close_started_witness:
  "ctx bound_tun = Some 0 \<and> cancel bound_tun = Some 0
   \<and> fst (Close None bound_tun bound_world) = Returns None
   \<and> file_fd bound_tun \<notin> open_fds (snd (Close None bound_tun bound_world))
   \<and> ctx_done (snd (Close None bound_tun bound_world)) 0
   \<and> fst (Close (Some ''input/output error'') bound_tun bound_world) \<noteq> Returns None
   \<and> ctx_done (snd (Close (Some ''input/output error'') bound_tun bound_world)) = ctx_done bound_world"
  using Close_started [of bound_tun 0 None bound_world]
    Close_started [of bound_tun 0 "Some ''input/output error''" bound_world]
  by (simp add: bound_tun_eval bound_world_eval new_tun_def)

text \<open>
  The claim as stated (the token is set whether or not releasing the handle succeeds)
  fails: on the started engine, with the kernel answering the close with an error,
  \<open>Close\<close> returns the close error and the token is not set.
\<close>

theorem Close_failure_skips_cancel_counterexample:
  "ctx bound_tun = Some 0 \<and> cancel bound_tun = Some 0
   \<and> fst (Close (Some ''input/output error'') bound_tun bound_world) =
       Returns (Some (CloseError ''input/output error''))
   \<and> \<not> ctx_done (snd (Close (Some ''input/output error'') bound_tun bound_world)) 0"
  by (simp add: Close_cases bound_tun_eval bound_world_eval new_tun_def)

subsection \<open>Write\<close>

lemma Write_cases:
  "Write pick pkt t w =
     (case ctx t of
        None \<Rightarrow> Panics
      | Some c \<Rightarrow>
          if closed (outgoingQueue t) then
            (if ctx_done w c \<and> pick = Second then Returns (Some DeviceClosedError, t) else Panics)
          else if length (buf (outgoingQueue t)) < capacity (outgoingQueue t) then
            (if ctx_done w c \<and> pick = Second then Returns (Some DeviceClosedError, t)
             else Returns (None, t\<lparr>outgoingQueue :=
                    (outgoingQueue t)\<lparr>buf := buf (outgoingQueue t) @ [pkt]\<rparr>\<rparr>))
          else if ctx_done w c then Returns (Some DeviceClosedError, t)
          else Blocks)"
  by (cases pick)
     (simp_all add: Write_def select2_def send_ready_def chan_send_def split: option.splits)

text \<open>
  Claim C3, as the code has it. On a started engine whose outgoing queue is not closed:
  once the token is set, \<open>Write\<close> does not block. It fails with the device-closed
  error (\<open>DeviceClosedError\<close>) whenever the queue is full; when the queue has room both
  cases of the \<open>select\<close> can proceed and the runtime picks one, so the call either
  fails with the device-closed error and leaves the engine as it is, or enqueues the
  packet and returns success. While the token is not set and the queue has room,
  \<open>Write\<close> enqueues the packet at the back and returns success.
\<close>

theorem Write_started:
  assumes "ctx t = Some c" and "\<not> closed (outgoingQueue t)"
  shows "(ctx_done w c \<longrightarrow>
            Write pick pkt t w = Returns (Some DeviceClosedError, t) \<or>
            length (buf (outgoingQueue t)) < capacity (outgoingQueue t) \<and> pick = First \<and>
            Write pick pkt t w = Returns (None,
              t\<lparr>outgoingQueue := (outgoingQueue t)\<lparr>buf := buf (outgoingQueue t) @ [pkt]\<rparr>\<rparr>))
     \<and> (ctx_done w c \<and> capacity (outgoingQueue t) \<le> length (buf (outgoingQueue t)) \<longrightarrow>
            Write pick pkt t w = Returns (Some DeviceClosedError, t))
     \<and> (ctx_done w c \<and> length (buf (outgoingQueue t)) < capacity (outgoingQueue t) \<longrightarrow>
            Write Second pkt t w = Returns (Some DeviceClosedError, t) \<and>
            Write First pkt t w = Returns (None,
              t\<lparr>outgoingQueue := (outgoingQueue t)\<lparr>buf := buf (outgoingQueue t) @ [pkt]\<rparr>\<rparr>))
     \<and> (\<not> ctx_done w c \<and> length (buf (outgoingQueue t)) < capacity (outgoingQueue t) \<longrightarrow>
            Write pick pkt t w = Returns (None,
              t\<lparr>outgoingQueue := (outgoingQueue t)\<lparr>buf := buf (outgoingQueue t) @ [pkt]\<rparr>\<rparr>))"
  using assms by (cases pick) (simp_all add: Write_cases)

theorem Write_started_witness:
  "ctx bound_tun = Some 0 \<and> \<not> closed (outgoingQueue bound_tun)
   \<and> ctx_done (call_cancel 0 bound_world) 0 \<and> \<not> ctx_done bound_world 0
   \<and> length (buf (outgoingQueue bound_tun)) < capacity (outgoingQueue bound_tun)
   \<and> Write Second ping bound_tun (call_cancel 0 bound_world) = Returns (Some DeviceClosedError, bound_tun)
   \<and> Write First ping bound_tun (call_cancel 0 bound_world) =
       Returns (None, bound_tun\<lparr>outgoingQueue := (outgoingQueue bound_tun)\<lparr>buf := [ping]\<rparr>\<rparr>)
   \<and> Write Second ping bound_tun bound_world =
       Returns (None, bound_tun\<lparr>outgoingQueue := (outgoingQueue bound_tun)\<lparr>buf := [ping]\<rparr>\<rparr>)
   \<and> ctx full_tun = Some 0 \<and> \<not> closed (outgoingQueue full_tun)
   \<and> capacity (outgoingQueue full_tun) \<le> length (buf (outgoingQueue full_tun))
   \<and> Write First ping full_tun (call_cancel 0 bound_world) = Returns (Some DeviceClosedError, full_tun)"
  using Write_started [of bound_tun 0 "call_cancel 0 bound_world" First ping]
    Write_started [of bound_tun 0 bound_world Second ping]
    Write_started [of full_tun 0 "call_cancel 0 bound_world" First ping]
  by (simp add: bound_tun_eval bound_world_eval new_tun_def full_tun_def make_chan_def
      call_cancel_def QUEUE_SIZE_def)

text \<open>
  The claim as stated (after \<open>Close\<close> every \<open>Write\<close> fails and enqueues nothing)
  fails: after a successful \<open>Close\<close> of the started engine the token is set, and a
  \<open>Write\<close> whose \<open>select\<close> runs the send case returns success with the packet in
  the outgoing queue.
\<close>

theorem Write_after_cancel_enqueues_counterexample:
  "ctx bound_tun = Some 0 \<and> cancel bound_tun = Some 0
   \<and> fst (Close None bound_tun bound_world) = Returns None
   \<and> ctx_done (snd (Close None bound_tun bound_world)) 0
   \<and> Write First ping bound_tun (snd (Close None bound_tun bound_world)) =
       Returns (None, bound_tun\<lparr>outgoingQueue := (outgoingQueue bound_tun)\<lparr>buf := [ping]\<rparr>\<rparr>)"
  by (simp add: Write_cases Close_cases bound_tun_eval bound_world_eval new_tun_def make_chan_def
      call_cancel_def QUEUE_SIZE_def)

subsection \<open>What a step does to the queues\<close>

lemma fifo_step_refl: "fifo_step xs xs"
  by (simp add: fifo_step_def)

lemma fifo_step_push: "fifo_step xs (xs @ [p])"
  by (simp add: fifo_step_def)

lemma fifo_step_pop: "fifo_step (p # xs) xs"
  by (simp add: fifo_step_def)

lemma dev_step_refl: "queue_ok (incomingQueue t) \<Longrightarrow> queue_ok (outgoingQueue t) \<Longrightarrow> dev_step t t"
  by (simp add: dev_step_def fifo_step_refl)

lemma Read_dev_step:
  assumes "queue_ok (incomingQueue t)" and "queue_ok (outgoingQueue t)"
    and "Read t = Returns (r, t')"
  shows "dev_step t t'"
  using assms
  by (auto simp: Read_def chan_recv_def dev_step_def queue_ok_def fifo_step_def
      split: list.splits if_splits)

lemma Write_dev_step:
  assumes "queue_ok (incomingQueue t)" and "queue_ok (outgoingQueue t)"
    and "Write pick pkt t w = Returns (r, t')"
  shows "dev_step t t'"
  using assms
  by (auto simp: Write_cases dev_step_def queue_ok_def fifo_step_def
      split: option.splits if_splits)

lemma read_pump_dev_step:
  assumes "queue_ok (incomingQueue t)" and "queue_ok (outgoingQueue t)"
    and "read_pump_step res st t w = (st', t', w')"
  shows "dev_step t t'"
proof (cases st)
  case RLoop
  with assms(3) have "t' = t"
    by (auto simp: read_pump_step_def Let_def split: option.splits if_splits prod.splits)
  with assms(1,2) show ?thesis by (simp add: dev_step_refl)
next
  case (RSend packet)
  with assms show ?thesis
    by (auto simp: read_pump_step_def chan_send_def dev_step_def queue_ok_def fifo_step_def
        split: if_splits)
next
  case RExit
  with assms show ?thesis by (simp add: read_pump_step_def dev_step_refl)
next
  case RCrash
  with assms show ?thesis by (simp add: read_pump_step_def dev_step_refl)
qed

lemma write_pump_dev_step:
  assumes "queue_ok (incomingQueue t)" and "queue_ok (outgoingQueue t)"
    and "write_pump_step pick res st t w = (st', t', w')"
  shows "dev_step t t'"
proof (cases st)
  case WLoop
  from assms(2) have nc: "\<not> closed (outgoingQueue t)" by (simp add: queue_ok_def)
  from WLoop assms(3)
  have "t' = t \<or> (\<exists>p ps. buf (outgoingQueue t) = p # ps \<and>
                    t' = t\<lparr>outgoingQueue := (outgoingQueue t)\<lparr>buf := ps\<rparr>\<rparr>)"
    using nc
    by (auto simp: write_pump_step_def chan_recv_def Let_def
        split: option.splits choice.splits list.splits if_splits prod.splits)
  then show ?thesis
  proof
    assume "t' = t"
    with assms(1,2) show ?thesis by (simp add: dev_step_refl)
  next
    assume "\<exists>p ps. buf (outgoingQueue t) = p # ps \<and>
                    t' = t\<lparr>outgoingQueue := (outgoingQueue t)\<lparr>buf := ps\<rparr>\<rparr>"
    with assms(1,2) show ?thesis
      by (auto simp: dev_step_def queue_ok_def fifo_step_def)
  qed
next
  case WExit
  with assms show ?thesis by (simp add: write_pump_step_def dev_step_refl)
next
  case WCrash
  with assms show ?thesis by (simp add: write_pump_step_def dev_step_refl)
qed

lemma Bind_eval:
  "Bind t w =
     (t\<lparr>ctx := Some (ctx_count w), cancel := Some (ctx_count w)\<rparr>,
      w\<lparr>ctx_done := (ctx_done w)(ctx_count w := False), ctx_count := Suc (ctx_count w)\<rparr>)"
  by (simp add: Bind_def WithCancel_def Let_def)

lemma Bind_dev_step:
  assumes "queue_ok (incomingQueue t)" and "queue_ok (outgoingQueue t)"
  shows "dev_step t (fst (Bind t w))"
  using assms by (simp add: Bind_eval dev_step_def fifo_step_refl)

lemma act_dev_step:
  assumes "queue_ok (incomingQueue (dev s))" and "queue_ok (outgoingQueue (dev s))"
  shows "dev_step (dev s) (dev (act a s))"
proof (cases a)
  case CallBind
  then show ?thesis
    using Bind_dev_step [OF assms, of "env s"] by (simp add: Bind_eval)
next
  case CallRead
  show ?thesis
  proof (cases "Read (dev s)")
    case (Returns x)
    then show ?thesis
      using CallRead Read_dev_step [OF assms, of "fst x" "snd x"]
      by (cases x) auto
  qed (simp_all add: CallRead dev_step_refl assms)
next
  case (CallWrite pick pkt)
  show ?thesis
  proof (cases "Write pick pkt (dev s) (env s)")
    case (Returns x)
    then show ?thesis
      using CallWrite Write_dev_step [OF assms, of pick pkt "env s" "fst x" "snd x"]
      by (cases x) auto
  qed (simp_all add: CallWrite dev_step_refl assms)
next
  case (CallClose res)
  then show ?thesis
    using assms by (simp add: dev_step_refl split: prod.splits)
next
  case (StepReadPump i res)
  show ?thesis
  proof (cases "i < length (rpumps s)")
    case True
    obtain st t w where r: "read_pump_step res (rpumps s ! i) (dev s) (env s) = (st, t, w)"
      by (cases "read_pump_step res (rpumps s ! i) (dev s) (env s)") auto
    from read_pump_dev_step [OF assms r] show ?thesis
      using True StepReadPump r by simp
  next
    case False
    then show ?thesis using StepReadPump assms by (simp add: dev_step_refl)
  qed
next
  case (StepWritePump i pick res)
  show ?thesis
  proof (cases "i < length (wpumps s)")
    case True
    obtain st t w where r: "write_pump_step pick res (wpumps s ! i) (dev s) (env s) = (st, t, w)"
      by (cases "write_pump_step pick res (wpumps s ! i) (dev s) (env s)") auto
    from write_pump_dev_step [OF assms r] show ?thesis
      using True StepWritePump r by simp
  next
    case False
    then show ?thesis using StepWritePump assms by (simp add: dev_step_refl)
  qed
qed

lemma step_dev_step:
  assumes "queue_ok (incomingQueue (dev s))" and "queue_ok (outgoingQueue (dev s))"
  shows "dev_step (dev s) (dev (step a s))"
  using assms by (simp add: step_def act_dev_step dev_step_refl)

lemma run_queue_ok:
  "queue_ok (incomingQueue (dev s)) \<Longrightarrow> queue_ok (outgoingQueue (dev s)) \<Longrightarrow>
   queue_ok (incomingQueue (dev (run as s))) \<and> queue_ok (outgoingQueue (dev (run as s)))
   \<and> file_fd (dev (run as s)) = file_fd (dev s)"
proof (induction as arbitrary: s)
  case Nil
  then show ?case by simp
next
  case (Cons a as)
  from step_dev_step [OF Cons.prems, of a]
  have *: "queue_ok (incomingQueue (dev (step a s)))" "queue_ok (outgoingQueue (dev (step a s)))"
    "file_fd (dev (step a s)) = file_fd (dev s)"
    by (simp_all add: dev_step_def)
  with Cons.IH [of "step a s"] show ?case by simp
qed

lemma fifo_step_balance:
  assumes "fifo_step old new"
  shows "old @ (if length new = Suc (length old) then [last new] else []) =
         (if Suc (length new) = length old then [hd old] else []) @ new"
proof -
  consider "new = old" | "new \<noteq> []" "butlast new = old" | "old \<noteq> []" "new = tl old"
    using assms by (auto simp: fifo_step_def)
  then show ?thesis
  proof cases
    case 1
    then show ?thesis by simp
  next
    case 2
    then show ?thesis by (cases new rule: rev_cases) auto
  next
    case 3
    then show ?thesis by (cases old) auto
  qed
qed

lemma fifo_run:
  assumes "queue_ok (incomingQueue (dev s))" and "queue_ok (outgoingQueue (dev s))"
  shows "buf (incomingQueue (dev s)) @ enqueued incomingQueue as s =
           dequeued incomingQueue as s @ buf (incomingQueue (dev (run as s)))
       \<and> buf (outgoingQueue (dev s)) @ enqueued outgoingQueue as s =
           dequeued outgoingQueue as s @ buf (outgoingQueue (dev (run as s)))"
  using assms
proof (induction as arbitrary: s)
  case Nil
  then show ?case by simp
next
  case (Cons a as)
  let ?s = "step a s"
  from step_dev_step [OF Cons.prems, of a]
  have ok: "queue_ok (incomingQueue (dev ?s))" "queue_ok (outgoingQueue (dev ?s))"
    and fi: "fifo_step (buf (incomingQueue (dev s))) (buf (incomingQueue (dev ?s)))"
    and fo: "fifo_step (buf (outgoingQueue (dev s))) (buf (outgoingQueue (dev ?s)))"
    by (simp_all add: dev_step_def)
  note ih = Cons.IH [OF ok]
  have "buf (incomingQueue (dev s)) @ enqueued incomingQueue (a # as) s =
        (buf (incomingQueue (dev s)) @
           (if length (buf (incomingQueue (dev ?s))) = Suc (length (buf (incomingQueue (dev s))))
            then [last (buf (incomingQueue (dev ?s)))] else [])) @ enqueued incomingQueue as ?s"
    by (simp add: Let_def)
  also have "\<dots> = ((if Suc (length (buf (incomingQueue (dev ?s)))) = length (buf (incomingQueue (dev s)))
                    then [hd (buf (incomingQueue (dev s)))] else []) @ buf (incomingQueue (dev ?s)))
                  @ enqueued incomingQueue as ?s"
    by (simp only: fifo_step_balance [OF fi])
  also have "\<dots> = dequeued incomingQueue (a # as) s @ buf (incomingQueue (dev (run (a # as) s)))"
    using ih by (simp add: Let_def)
  finally have inc: "buf (incomingQueue (dev s)) @ enqueued incomingQueue (a # as) s =
      dequeued incomingQueue (a # as) s @ buf (incomingQueue (dev (run (a # as) s)))" .
  have "buf (outgoingQueue (dev s)) @ enqueued outgoingQueue (a # as) s =
        (buf (outgoingQueue (dev s)) @
           (if length (buf (outgoingQueue (dev ?s))) = Suc (length (buf (outgoingQueue (dev s))))
            then [last (buf (outgoingQueue (dev ?s)))] else [])) @ enqueued outgoingQueue as ?s"
    by (simp add: Let_def)
  also have "\<dots> = ((if Suc (length (buf (outgoingQueue (dev ?s)))) = length (buf (outgoingQueue (dev s)))
                    then [hd (buf (outgoingQueue (dev s)))] else []) @ buf (outgoingQueue (dev ?s)))
                  @ enqueued outgoingQueue as ?s"
    by (simp only: fifo_step_balance [OF fo])
  also have "\<dots> = dequeued outgoingQueue (a # as) s @ buf (outgoingQueue (dev (run (a # as) s)))"
    using ih by (simp add: Let_def)
  finally have out: "buf (outgoingQueue (dev s)) @ enqueued outgoingQueue (a # as) s =
      dequeued outgoingQueue (a # as) s @ buf (outgoingQueue (dev (run (a # as) s)))" .
  from inc out show ?case by simp
qed

subsection \<open>Runs from the constructed engine\<close>

lemma NewTun_engine:
  assumes "NewTun open_res e w = (Inr t, w1)"
  shows "incomingQueue t = make_chan QUEUE_SIZE \<and> outgoingQueue t = make_chan QUEUE_SIZE
    \<and> ctx t = None \<and> cancel t = None \<and> open_res = Inr (file_fd t) \<and> e = 0"
  using assms by (cases open_res) (auto simp: NewTun_opened NewTun_open_fails split: if_splits)

lemma make_chan_ok: "queue_ok (make_chan QUEUE_SIZE)"
  by (simp add: queue_ok_def make_chan_def)

lemma constructed_ok:
  assumes "NewTun open_res e w = (Inr t, w1)"
  shows "queue_ok (incomingQueue (dev (constructed t w1)))"
    and "queue_ok (outgoingQueue (dev (constructed t w1)))"
  using NewTun_engine [OF assms] by (simp_all add: constructed_def make_chan_ok)

lemma Read_cases:
  "Read t =
     (case buf (incomingQueue t) of
        p # ps \<Rightarrow> Returns ((p, None), t\<lparr>incomingQueue := (incomingQueue t)\<lparr>buf := ps\<rparr>\<rparr>)
      | [] \<Rightarrow> if closed (incomingQueue t) then Returns ((zero_Packet, Some QueueClosedError), t)
              else Blocks)"
  by (simp add: Read_def chan_recv_def split: list.splits)

lemmas eval_defs = step_def crashed_def constructed_def Bind_eval Close_cases Write_cases Read_cases
  write_pump_step_def read_pump_step_def select2_def recv_ready_def send_ready_def chan_recv_def chan_send_def
  reslice_def cap_def write_sys_def Syscall_WRITE_def new_tun_def make_chan_def QUEUE_SIZE_def
  new_world_eval call_cancel_def log_Printf_def ping_def pong_def Fd_def

text \<open>
  Claim C9. The engine that \<open>NewTun\<close> returns has its two queues, incoming and
  outgoing, each empty, open and of capacity \<open>QUEUE_SIZE = 10\<close>. Along every run
  from there (calls of \<open>Bind\<close>, \<open>Read\<close>, \<open>Write\<close>, \<open>Close\<close> and steps of the pumps,
  in any order) each queue keeps capacity 10 and never holds more than 10 packets;
  every step leaves the contents of a queue alone, appends one packet at the back or
  removes the one at the front; and the packets put into a queue so far are, in the
  order in which they were put, the packets taken out of it so far, in the order in
  which they were taken, followed by the packets still in it.
\<close>

theorem queues_bounded_fifo:
  assumes "NewTun open_res ioctl_res w = (Inr t, w1)"
    and "s = run as (constructed t w1)"
  shows "incomingQueue t = \<lparr>buf = [], capacity = 10, closed = False\<rparr>
     \<and> outgoingQueue t = \<lparr>buf = [], capacity = 10, closed = False\<rparr>
     \<and> QUEUE_SIZE = 10
     \<and> capacity (incomingQueue (dev s)) = 10 \<and> capacity (outgoingQueue (dev s)) = 10
     \<and> length (buf (incomingQueue (dev s))) \<le> 10 \<and> length (buf (outgoingQueue (dev s))) \<le> 10
     \<and> fifo_step (buf (incomingQueue (dev s))) (buf (incomingQueue (dev (step a s))))
     \<and> fifo_step (buf (outgoingQueue (dev s))) (buf (outgoingQueue (dev (step a s))))
     \<and> enqueued incomingQueue as (constructed t w1) =
         dequeued incomingQueue as (constructed t w1) @ buf (incomingQueue (dev s))
     \<and> enqueued outgoingQueue as (constructed t w1) =
         dequeued outgoingQueue as (constructed t w1) @ buf (outgoingQueue (dev s))"
proof -
  note ok0 = constructed_ok [OF assms(1)]
  have new: "incomingQueue t = make_chan QUEUE_SIZE" "outgoingQueue t = make_chan QUEUE_SIZE"
    using NewTun_engine [OF assms(1)] by simp_all
  have ok: "queue_ok (incomingQueue (dev s))" "queue_ok (outgoingQueue (dev s))"
    using run_queue_ok [OF ok0, of as] assms(2) by simp_all
  have st: "dev_step (dev s) (dev (step a s))"
    by (rule step_dev_step [OF ok])
  have fifo: "buf (incomingQueue (dev (constructed t w1))) @ enqueued incomingQueue as (constructed t w1) =
           dequeued incomingQueue as (constructed t w1) @ buf (incomingQueue (dev s))"
    "buf (outgoingQueue (dev (constructed t w1))) @ enqueued outgoingQueue as (constructed t w1) =
           dequeued outgoingQueue as (constructed t w1) @ buf (outgoingQueue (dev s))"
    using fifo_run [OF ok0, of as] assms(2) by simp_all
  have empty: "buf (incomingQueue (dev (constructed t w1))) = []"
    "buf (outgoingQueue (dev (constructed t w1))) = []"
    by (simp_all add: constructed_def new make_chan_def)
  show ?thesis
    using ok st fifo
    by (simp add: empty new make_chan_def QUEUE_SIZE_def queue_ok_def dev_step_def)
qed

theorem queues_bounded_fifo_witness:
  "NewTun (Inr 3) 0 fresh_world = (Inr new_tun, new_world)
   \<and> capacity (incomingQueue (dev (run demo_run (constructed new_tun new_world)))) = 10
   \<and> capacity (outgoingQueue (dev (run demo_run (constructed new_tun new_world)))) = 10
   \<and> length (buf (outgoingQueue (dev (run demo_run (constructed new_tun new_world))))) \<le> 10
   \<and> enqueued outgoingQueue demo_run (constructed new_tun new_world) = [ping, pong]
   \<and> dequeued outgoingQueue demo_run (constructed new_tun new_world) = [ping]
   \<and> buf (outgoingQueue (dev (run demo_run (constructed new_tun new_world)))) = [pong]"
  using queues_bounded_fifo [OF new_tun_constructed refl, of demo_run CallRead]
  by (simp add: eval_defs Let_def demo_run_def new_tun_constructed)

subsection \<open>Read\<close>

text \<open>
  Claim C8. When a packet is available \<open>Read\<close> returns the oldest one and takes it
  out of the incoming queue. When none is available it fails with the queue-closed
  error (\<open>QueueClosedError\<close>) if the queue is closed and blocks otherwise; it returns
  that error in no other case. Nothing closes the incoming queue: in every state
  that a run from the constructed engine reaches, \<open>Close\<close> included, the queue is
  not closed, \<open>Read\<close> does not return the error, and with no packet available it
  blocks.
\<close>

theorem Read_queue:
  "(buf (incomingQueue t) = p # ps \<longrightarrow>
      Read t = Returns ((p, None), t\<lparr>incomingQueue := (incomingQueue t)\<lparr>buf := ps\<rparr>\<rparr>))
   \<and> (buf (incomingQueue t) = [] \<longrightarrow>
        Read t = (if closed (incomingQueue t)
                  then Returns ((zero_Packet, Some QueueClosedError), t) else Blocks))
   \<and> ((\<exists>r t'. Read t = Returns ((r, Some QueueClosedError), t')) \<longleftrightarrow>
        closed (incomingQueue t) \<and> buf (incomingQueue t) = [])
   \<and> (NewTun open_res ioctl_res w = (Inr t0, w0) \<and> s = run as (constructed t0 w0) \<longrightarrow>
        \<not> closed (incomingQueue (dev s)) \<and>
        ((\<exists>r t'. Read (dev s) = Returns ((r, Some QueueClosedError), t')) \<longleftrightarrow>
           closed (incomingQueue (dev s))) \<and>
        (buf (incomingQueue (dev s)) = [] \<longrightarrow> Read (dev s) = Blocks))"
proof -
  have general: "(\<exists>r t'. Read t = Returns ((r, Some QueueClosedError), t')) \<longleftrightarrow>
        closed (incomingQueue t) \<and> buf (incomingQueue t) = []" for t
    by (auto simp: Read_cases split: list.splits)
  have reach: "\<not> closed (incomingQueue (dev s))"
    if "NewTun open_res ioctl_res w = (Inr t0, w0)" and "s = run as (constructed t0 w0)"
    using run_queue_ok [OF constructed_ok [OF that(1)], of as] that(2)
    by (simp add: queue_ok_def)
  show ?thesis
    using general [of t] general [of "dev s"] reach
    by (auto simp: Read_cases)
qed

theorem Read_queue_witness:
  "buf (incomingQueue fed_tun) = [ping, pong]
   \<and> Read fed_tun = Returns ((ping, None),
        fed_tun\<lparr>incomingQueue := (incomingQueue fed_tun)\<lparr>buf := [pong]\<rparr>\<rparr>)
   \<and> NewTun (Inr 3) 0 fresh_world = (Inr new_tun, new_world)
   \<and> buf (incomingQueue (dev (run demo_run (constructed new_tun new_world)))) = []
   \<and> \<not> closed (incomingQueue (dev (run demo_run (constructed new_tun new_world))))
   \<and> Read (dev (run demo_run (constructed new_tun new_world))) = Blocks"
  using Read_queue [where t = fed_tun and p = ping and ps = "[pong]" and open_res = "Inr 3"
      and ioctl_res = 0 and w = fresh_world and ?t0.0 = new_tun and ?w0.0 = new_world
      and as = demo_run and s = "run demo_run (constructed new_tun new_world)"]
  by (simp add: eval_defs demo_run_def new_tun_constructed fed_tun_def bound_tun_eval)

subsection \<open>The engine before Bind\<close>

lemma Read_fields: "Read t = Returns (r, t') \<Longrightarrow> bound_fields t' = bound_fields t"
  by (auto simp: Read_cases bound_fields_def split: list.splits if_splits)

lemma Write_fields: "Write pick pkt t w = Returns (r, t') \<Longrightarrow> bound_fields t' = bound_fields t"
  by (auto simp: Write_cases bound_fields_def split: option.splits if_splits)

lemma read_pump_fields:
  "read_pump_step res st t w = (st', t', w') \<Longrightarrow> bound_fields t' = bound_fields t"
  by (cases st)
     (auto simp: read_pump_step_def chan_send_def bound_fields_def Let_def
      split: option.splits if_splits prod.splits)

lemma write_pump_fields:
  "write_pump_step pick res st t w = (st', t', w') \<Longrightarrow> bound_fields t' = bound_fields t"
  by (cases st)
     (auto simp: write_pump_step_def chan_recv_def bound_fields_def Let_def
      split: option.splits choice.splits list.splits if_splits prod.splits)

lemma act_fields:
  assumes "a \<noteq> CallBind"
  shows "bound_fields (dev (act a s)) = bound_fields (dev s)"
proof (cases a)
  case CallBind
  with assms show ?thesis by simp
next
  case CallRead
  show ?thesis
  proof (cases "Read (dev s)")
    case (Returns x)
    then show ?thesis
      using CallRead Read_fields [of "dev s" "fst x" "snd x"] by (cases x) auto
  qed (simp_all add: CallRead)
next
  case (CallWrite pick pkt)
  show ?thesis
  proof (cases "Write pick pkt (dev s) (env s)")
    case (Returns x)
    then show ?thesis
      using CallWrite Write_fields [of pick pkt "dev s" "env s" "fst x" "snd x"] by (cases x) auto
  qed (simp_all add: CallWrite)
next
  case (CallClose res)
  then show ?thesis by (simp split: prod.splits)
next
  case (StepReadPump i res)
  show ?thesis
  proof (cases "i < length (rpumps s)")
    case True
    obtain st t w where r: "read_pump_step res (rpumps s ! i) (dev s) (env s) = (st, t, w)"
      by (cases "read_pump_step res (rpumps s ! i) (dev s) (env s)") auto
    from read_pump_fields [OF r] show ?thesis
      using True StepReadPump r by simp
  next
    case False
    then show ?thesis using StepReadPump by simp
  qed
next
  case (StepWritePump i pick res)
  show ?thesis
  proof (cases "i < length (wpumps s)")
    case True
    obtain st t w where r: "write_pump_step pick res (wpumps s ! i) (dev s) (env s) = (st, t, w)"
      by (cases "write_pump_step pick res (wpumps s ! i) (dev s) (env s)") auto
    from write_pump_fields [OF r] show ?thesis
      using True StepWritePump r by simp
  next
    case False
    then show ?thesis using StepWritePump by simp
  qed
qed

lemma run_fields:
  "CallBind \<notin> set as \<Longrightarrow> bound_fields (dev (run as s)) = bound_fields (dev s)"
proof (induction as arbitrary: s)
  case Nil
  then show ?case by simp
next
  case (Cons a as)
  from Cons.prems have "a \<noteq> CallBind" and rest: "CallBind \<notin> set as" by auto
  then have "bound_fields (dev (step a s)) = bound_fields (dev s)"
    by (simp add: step_def act_fields)
  with Cons.IH [OF rest, of "step a s"] show ?case by simp
qed

text \<open>
  Claim C10, as the code has it. In every state that a run without \<open>Bind\<close> reaches
  from the constructed engine, the fields \<open>ctx\<close> and \<open>cancel\<close> are \<open>nil\<close>; every
  \<open>Write\<close> panics; \<open>Close\<close> panics exactly when the handle was open and the kernel
  released it without error, and then the handle has been released before the panic;
  in the other cases \<open>Close\<close> returns the close error without panicking. \<open>Bind\<close>
  sets both fields.
\<close>

theorem not_started_engine:
  assumes "NewTun open_res ioctl_res w = (Inr t, w1)"
    and "CallBind \<notin> set as"
    and "s = run as (constructed t w1)"
  shows "ctx (dev s) = None \<and> cancel (dev s) = None
     \<and> Write pick pkt (dev s) (env s) = Panics
     \<and> (fst (Close res (dev s) (env s)) = Panics \<longleftrightarrow>
          file_fd (dev s) \<in> open_fds (env s) \<and> res = None)
     \<and> (fst (Close res (dev s) (env s)) = Panics \<longrightarrow>
          file_fd (dev s) \<notin> open_fds (snd (Close res (dev s) (env s))))
     \<and> (fst (Close res (dev s) (env s)) \<noteq> Panics \<longrightarrow>
          (\<exists>msg. fst (Close res (dev s) (env s)) = Returns (Some (CloseError msg))))
     \<and> ctx (fst (Bind (dev s) (env s))) \<noteq> None \<and> cancel (fst (Bind (dev s) (env s))) \<noteq> None"
proof -
  have "bound_fields (dev s) = bound_fields t"
    using run_fields [OF assms(2), of "constructed t w1"] assms(3)
    by (simp add: constructed_def)
  then have nil: "ctx (dev s) = None" "cancel (dev s) = None"
    using NewTun_engine [OF assms(1)] by (simp_all add: bound_fields_def)
  show ?thesis
    by (cases res) (simp_all add: nil Write_cases Close_cases Bind_eval)
qed

theorem not_started_engine_witness:
  "NewTun (Inr 3) 0 fresh_world = (Inr new_tun, new_world)
   \<and> CallBind \<notin> set [CallRead, CallWrite First ping]
   \<and> dev (run [CallRead, CallWrite First ping] (constructed new_tun new_world)) = new_tun
   \<and> ctx new_tun = None \<and> cancel new_tun = None
   \<and> Write First ping new_tun new_world = Panics
   \<and> fst (Close None new_tun new_world) = Panics
   \<and> fst (Close (Some ''input/output error'') new_tun new_world) \<noteq> Panics"
  using not_started_engine [OF new_tun_constructed _ refl, of "[CallRead, CallWrite First ping]" First ping None]
    not_started_engine [OF new_tun_constructed _ refl, of "[CallRead, CallWrite First ping]" First ping "Some ''input/output error''"]
  by (simp add: eval_defs new_tun_constructed)

text \<open>
  The claim as stated (a call to \<open>Close\<close> on an engine that was not started panics
  instead of returning an error) fails: on the engine just constructed, with the
  kernel answering the close with an error, \<open>Close\<close> returns the close error.
\<close>

theorem Close_not_started_returns_error_counterexample:
  "NewTun (Inr 3) 0 fresh_world = (Inr new_tun, new_world)
   \<and> ctx new_tun = None \<and> cancel new_tun = None
   \<and> fst (Close (Some ''input/output error'') new_tun new_world) =
       Returns (Some (CloseError ''input/output error''))"
  by (simp add: new_tun_constructed Close_cases new_world_eval) (simp add: new_tun_def)

subsection \<open>The read pump\<close>

lemma PACKET_SIZE_pos: "PACKET_SIZE \<noteq> 0"
  by (simp add: PACKET_SIZE_def)

lemma read_eval:
  "read (data, e) t (make_bytes PACKET_SIZE) w =
     (if e \<noteq> 0
      then (Some ((0, Some (ReadError e)), make_bytes PACKET_SIZE),
            w\<lparr>calls := calls w @ [SysRead (Fd (file_fd t) w) PACKET_SIZE]\<rparr>)
      else (Some ((min (length data) PACKET_SIZE, None),
                  \<lparr>arr = take PACKET_SIZE data @ replicate (PACKET_SIZE - length data) 0,
                   len = PACKET_SIZE\<rparr>),
            w\<lparr>calls := calls w @ [SysRead (Fd (file_fd t) w) PACKET_SIZE]\<rparr>))"
  by (simp add: read_def make_bytes_def Syscall_READ_def PACKET_SIZE_pos Let_def min_def)

lemma read_pump_reads:
  assumes "ctx tun = Some c" and "\<not> ctx_done w c"
  shows "read_pump_step (data, e) RLoop tun w =
     (if e \<noteq> 0
      then (RSend empty_packet, tun,
            w\<lparr>calls := calls w @ [SysRead (Fd (file_fd tun) w) PACKET_SIZE], logs := logs w @ [ReadError e]\<rparr>)
      else (RSend \<lparr>Buf = \<lparr>arr = take PACKET_SIZE data @ replicate (PACKET_SIZE - length data) 0,
                          len = min (length data) PACKET_SIZE\<rparr>,
                   N = min (length data) PACKET_SIZE\<rparr>, tun,
            w\<lparr>calls := calls w @ [SysRead (Fd (file_fd tun) w) PACKET_SIZE]\<rparr>))"
  using assms
  by (simp add: read_pump_step_def read_eval)
     (simp add: reslice_def cap_def make_bytes_def log_Printf_def empty_packet_def)

lemma read_pump_packet_bounds:
  assumes "ctx tun = Some c" and "\<not> ctx_done w c"
    and "read_pump_step res RLoop tun w = (RSend p, t', w')"
  shows "len (Buf p) = N p \<and> N p \<le> cap (Buf p) \<and> cap (Buf p) = PACKET_SIZE"
proof -
  obtain data e where res: "res = (data, e)" by (cases res)
  show ?thesis
    using assms(3) read_pump_reads [OF assms(1,2), of data e]
    by (auto simp: res cap_def empty_packet_def min_def split: if_splits)
qed

text \<open>
  Claim C6. In an iteration of the read pump that gets to read (the token is not set),
  the raw read is made on a new zeroed buffer of \<open>PACKET_SIZE = 2048\<close> bytes with count
  2048. When it succeeds with \<open>n\<close> bytes, \<open>n\<close> is at most 2048 and the packet the pump
  builds and sends to the incoming queue has the buffer cut to length \<open>n\<close> (capacity
  2048, showing the \<open>n\<close> bytes the kernel stored, zeros behind them) and \<open>N = n\<close>, so
  \<open>N\<close> is within the capacity of the buffer; with room in the queue, the iteration ends
  with exactly this packet appended at the back of the incoming queue. Whatever the
  kernel answers, a packet the pump builds has \<open>N\<close> equal to the length of its buffer
  and within its capacity of 2048.
\<close>

theorem read_pump_packet:
  assumes "ctx tun = Some c" and "\<not> ctx_done w c"
    and "Syscall_READ (Fd (file_fd tun) w) (arr (make_bytes PACKET_SIZE)) PACKET_SIZE res w =
           ((n, 0, mem), w1)"
  shows "read_pump_step res RLoop tun w = (RSend \<lparr>Buf = \<lparr>arr = mem, len = n\<rparr>, N = n\<rparr>, tun, w1)
     \<and> n \<le> PACKET_SIZE \<and> length mem = PACKET_SIZE \<and> PACKET_SIZE = 2048
     \<and> cap \<lparr>arr = mem, len = n\<rparr> = 2048
     \<and> elems \<lparr>arr = mem, len = n\<rparr> = take n (fst res)
     \<and> drop n mem = replicate (2048 - n) 0
     \<and> calls w1 = calls w @ [SysRead (Fd (file_fd tun) w) 2048]
     \<and> (file_fd tun \<in> open_fds w \<longrightarrow> Fd (file_fd tun) w = file_fd tun)
     \<and> arr (make_bytes PACKET_SIZE) = replicate 2048 0
     \<and> (\<not> closed (incomingQueue tun) \<and>
         length (buf (incomingQueue tun)) < capacity (incomingQueue tun) \<longrightarrow>
          read_pump_iteration res tun w =
            (RLoop,
             tun\<lparr>incomingQueue := (incomingQueue tun)
                    \<lparr>buf := buf (incomingQueue tun) @ [\<lparr>Buf = \<lparr>arr = mem, len = n\<rparr>, N = n\<rparr>]\<rparr>\<rparr>,
             w1))
     \<and> (\<forall>res' p t' w'. read_pump_step res' RLoop tun w = (RSend p, t', w') \<longrightarrow>
          len (Buf p) = N p \<and> N p \<le> cap (Buf p) \<and> cap (Buf p) = 2048)"
proof -
  obtain data e where res: "res = (data, e)" by (cases res)
  from assms(3) have e: "e = 0" and n: "n = min (length data) PACKET_SIZE"
    and mem: "mem = take PACKET_SIZE data @ replicate (PACKET_SIZE - length data) 0"
    and w1: "w1 = w\<lparr>calls := calls w @ [SysRead (Fd (file_fd tun) w) PACKET_SIZE]\<rparr>"
    by (auto simp: res Syscall_READ_def make_bytes_def Let_def min_def split: if_splits)
  have st: "read_pump_step res RLoop tun w = (RSend \<lparr>Buf = \<lparr>arr = mem, len = n\<rparr>, N = n\<rparr>, tun, w1)"
    using read_pump_reads [OF assms(1,2), of data e] by (simp add: res e n mem w1)
  have it: "read_pump_iteration res tun w =
            (RLoop,
             tun\<lparr>incomingQueue := (incomingQueue tun)
                    \<lparr>buf := buf (incomingQueue tun) @ [\<lparr>Buf = \<lparr>arr = mem, len = n\<rparr>, N = n\<rparr>]\<rparr>\<rparr>,
             w1)"
    if "\<not> closed (incomingQueue tun)"
      and "length (buf (incomingQueue tun)) < capacity (incomingQueue tun)"
    using that by (simp add: read_pump_iteration_def st) (simp add: read_pump_step_def chan_send_def)
  have more: "elems \<lparr>arr = mem, len = n\<rparr> = take n (fst res)" "drop n mem = replicate (PACKET_SIZE - n) 0"
    by (auto simp: elems_def mem n res min_def)
  have every: "len (Buf p) = N p \<and> N p \<le> cap (Buf p) \<and> cap (Buf p) = 2048"
    if "read_pump_step res' RLoop tun w = (RSend p, t', w')" for res' p t' w'
    using read_pump_packet_bounds [OF assms(1,2) that] by (simp add: PACKET_SIZE_def)
  have first: "read_pump_step res RLoop tun w = (RSend \<lparr>Buf = \<lparr>arr = mem, len = n\<rparr>, N = n\<rparr>, tun, w1)
     \<and> n \<le> PACKET_SIZE \<and> length mem = PACKET_SIZE \<and> PACKET_SIZE = 2048
     \<and> cap \<lparr>arr = mem, len = n\<rparr> = 2048
     \<and> elems \<lparr>arr = mem, len = n\<rparr> = take n (fst res)
     \<and> drop n mem = replicate (2048 - n) 0
     \<and> calls w1 = calls w @ [SysRead (Fd (file_fd tun) w) 2048]
     \<and> (file_fd tun \<in> open_fds w \<longrightarrow> Fd (file_fd tun) w = file_fd tun)
     \<and> arr (make_bytes PACKET_SIZE) = replicate 2048 0"
    using st more
    by (simp add: cap_def) (simp add: n mem w1 make_bytes_def PACKET_SIZE_def Fd_def)
  from first it every show ?thesis by blast
qed

theorem read_pump_packet_witness:
  "ctx bound_tun = Some 0 \<and> \<not> ctx_done bound_world 0
   \<and> file_fd bound_tun \<in> open_fds bound_world \<and> Fd (file_fd bound_tun) bound_world = 3
   \<and> Syscall_READ (Fd (file_fd bound_tun) bound_world) (arr (make_bytes PACKET_SIZE)) PACKET_SIZE
         ([0x45, 0x00, 0x1c], 0) bound_world =
       ((3, 0, [0x45, 0x00, 0x1c] @ replicate 2045 0),
        bound_world\<lparr>calls := calls bound_world @ [SysRead 3 2048]\<rparr>)
   \<and> read_pump_step ([0x45, 0x00, 0x1c], 0) RLoop bound_tun bound_world =
       (RSend \<lparr>Buf = \<lparr>arr = [0x45, 0x00, 0x1c] @ replicate 2045 0, len = 3\<rparr>, N = 3\<rparr>, bound_tun,
        bound_world\<lparr>calls := calls bound_world @ [SysRead 3 2048]\<rparr>)
   \<and> elems \<lparr>arr = [0x45, 0x00, 0x1c] @ replicate 2045 0, len = 3\<rparr> = [0x45, 0x00, 0x1c]"
proof -
  have h: "Syscall_READ (Fd (file_fd bound_tun) bound_world) (arr (make_bytes PACKET_SIZE)) PACKET_SIZE
         ([0x45, 0x00, 0x1c], 0) bound_world =
       ((3, 0, [0x45, 0x00, 0x1c] @ replicate 2045 0),
        bound_world\<lparr>calls := calls bound_world @ [SysRead 3 2048]\<rparr>)"
    by (simp add: Syscall_READ_def make_bytes_def PACKET_SIZE_def bound_tun_eval new_tun_def Let_def
        Fd_def bound_world_eval)
  have c: "ctx bound_tun = Some 0" "\<not> ctx_done bound_world 0"
    by (simp_all add: bound_tun_eval bound_world_eval)
  have o: "file_fd bound_tun \<in> open_fds bound_world" "Fd (file_fd bound_tun) bound_world = 3"
    by (simp_all add: bound_tun_eval new_tun_def bound_world_eval Fd_def)
  from read_pump_packet [OF c h] h c o show ?thesis by simp
qed

text \<open>
  Claim C1 is about the same iteration when the raw read fails. The code logs the
  read error but has no \<open>continue\<close> after it: it goes on to build the packet
  \<open>Packet{Buf: buf[:0], N: 0}\<close> and sends it. With room in the incoming queue the
  iteration ends with that empty packet enqueued.
\<close>

theorem failed_read_enqueues_empty_packet:
  assumes "ctx tun = Some c" and "\<not> ctx_done w c" and "e \<noteq> 0"
    and "\<not> closed (incomingQueue tun)"
    and "length (buf (incomingQueue tun)) < capacity (incomingQueue tun)"
  shows "read_pump_iteration (data, e) tun w =
     (RLoop,
      tun\<lparr>incomingQueue := (incomingQueue tun)\<lparr>buf := buf (incomingQueue tun) @ [empty_packet]\<rparr>\<rparr>,
      w\<lparr>calls := calls w @ [SysRead (Fd (file_fd tun) w) PACKET_SIZE], logs := logs w @ [ReadError e]\<rparr>)
    \<and> len (Buf empty_packet) = 0 \<and> N empty_packet = 0"
  using assms
  by (simp add: read_pump_iteration_def read_pump_reads)
     (simp add: read_pump_step_def chan_send_def empty_packet_def)

theorem failed_read_enqueues_empty_packet_witness:
  "ctx bound_tun = Some 0 \<and> \<not> ctx_done bound_world 0 \<and> (5::nat) \<noteq> 0
   \<and> \<not> closed (incomingQueue bound_tun)
   \<and> length (buf (incomingQueue bound_tun)) < capacity (incomingQueue bound_tun)
   \<and> read_pump_iteration ([], 5) bound_tun bound_world =
       (RLoop, bound_tun\<lparr>incomingQueue := (incomingQueue bound_tun)\<lparr>buf := [empty_packet]\<rparr>\<rparr>,
        bound_world\<lparr>calls := calls bound_world @ [SysRead 3 PACKET_SIZE], logs := [ReadError 5]\<rparr>)"
  using failed_read_enqueues_empty_packet [of bound_tun 0 bound_world 5 "[]"]
  by (simp add: bound_tun_eval bound_world_eval new_tun_def make_chan_def QUEUE_SIZE_def Fd_def)

text \<open>
  The empty packet does not stay harmless. In the program of \<open>test/network/main.go\<close>,
  which hands every packet it reads back to \<open>Write\<close>, the write pump takes the empty
  packet, \<open>write\<close> takes \<open>&buf[0]\<close> of an empty slice and the goroutine panics: after one
  failed read the process is down, with no write made to the device.
\<close>

lemma run_append: "run (as @ bs) s = run bs (run as s)"
  by (induction as arbitrary: s) simp_all

lemma echo_1:
  "run [CallBind, StepReadPump 0 ([], 5)] (constructed new_tun new_world) =
     \<lparr>dev = bound_tun,
      env = bound_world\<lparr>calls := calls bound_world @ [SysRead 3 PACKET_SIZE], logs := [ReadError 5]\<rparr>,
      rpumps = [RSend empty_packet], wpumps = [WLoop]\<rparr>"
  by (simp add: step_def crashed_def constructed_def Bind_eval read_pump_step_def read_eval
       PACKET_SIZE_pos new_world_eval bound_tun_def bound_world_def)
     (simp add: reslice_def cap_def make_bytes_def log_Printf_def empty_packet_def new_tun_def
        new_world_eval Fd_def)

lemma echo_2:
  "run [StepReadPump 0 ([], 5), CallRead, CallWrite First empty_packet]
     \<lparr>dev = bound_tun, env = w, rpumps = [RSend empty_packet], wpumps = [WLoop]\<rparr> =
     \<lparr>dev = loaded_tun empty_packet, env = w, rpumps = [RLoop], wpumps = [WLoop]\<rparr>"
  by (simp add: step_def crashed_def read_pump_step_def chan_send_def Read_cases Write_cases
       bound_tun_eval new_tun_def make_chan_def QUEUE_SIZE_def loaded_tun_def)

lemma echo_3:
  "\<not> ctx_done w 0 \<Longrightarrow>
   run [StepWritePump 0 First (0, 0)]
     \<lparr>dev = loaded_tun empty_packet, env = w, rpumps = [RLoop], wpumps = [WLoop]\<rparr> =
     \<lparr>dev = bound_tun, env = w, rpumps = [RLoop], wpumps = [WCrash]\<rparr>"
  by (simp add: step_def crashed_def write_pump_step_def select2_def recv_ready_def chan_recv_def
       loaded_tun_def bound_tun_eval new_tun_def make_chan_def)
     (simp add: reslice_def cap_def write_sys_def empty_packet_def)

lemma echo_run_crashes:
  "run echo_run (constructed new_tun new_world) =
     \<lparr>dev = bound_tun,
      env = bound_world\<lparr>calls := calls bound_world @ [SysRead 3 PACKET_SIZE], logs := [ReadError 5]\<rparr>,
      rpumps = [RLoop], wpumps = [WCrash]\<rparr>
   \<and> crashed (run echo_run (constructed new_tun new_world))"
proof -
  have split: "echo_run = [CallBind, StepReadPump 0 ([], 5)] @
      [StepReadPump 0 ([], 5), CallRead, CallWrite First empty_packet] @
      [StepWritePump 0 First (0, 0)]"
    by (simp add: echo_run_def)
  have "run echo_run (constructed new_tun new_world) =
     \<lparr>dev = bound_tun,
      env = bound_world\<lparr>calls := calls bound_world @ [SysRead 3 PACKET_SIZE], logs := [ReadError 5]\<rparr>,
      rpumps = [RLoop], wpumps = [WCrash]\<rparr>"
    unfolding split run_append echo_1 echo_2
    by (rule echo_3) (simp add: bound_world_eval)
  then show ?thesis by (simp add: crashed_def)
qed

subsection \<open>The write pump\<close>

lemma write_pump_dequeues:
  assumes "ctx tun = Some c" and "\<not> ctx_done w c \<or> pick = Second"
    and "buf (outgoingQueue tun) = pkt # rest"
  shows "write_pump_step pick res WLoop tun w =
     (if cap (Buf pkt) < N pkt \<or> N pkt = 0
      then (WCrash, tun\<lparr>outgoingQueue := (outgoingQueue tun)\<lparr>buf := rest\<rparr>\<rparr>, w)
      else (WLoop, tun\<lparr>outgoingQueue := (outgoingQueue tun)\<lparr>buf := rest\<rparr>\<rparr>,
            if snd res \<noteq> 0
            then w\<lparr>calls := calls w @
                     [SysWrite (Fd (file_fd tun) w) (take (N pkt) (arr (Buf pkt)))],
                   logs := logs w @ [WriteError (snd res)]\<rparr>
            else w\<lparr>calls := calls w @
                     [SysWrite (Fd (file_fd tun) w) (take (N pkt) (arr (Buf pkt)))]\<rparr>))"
  using assms
  by (cases pick; cases res)
     (auto simp: write_pump_step_def select2_def recv_ready_def chan_recv_def reslice_def
        write_sys_def Syscall_WRITE_def log_Printf_def Let_def)

text \<open>
  What \<open>Write\<close> accepts goes to the back of the outgoing queue as it was given.
\<close>

lemma Write_appends:
  assumes "Write pick pkt t w = Returns (None, t')"
  shows "buf (outgoingQueue t') = buf (outgoingQueue t) @ [pkt]"
  using assms by (auto simp: Write_cases split: option.splits if_splits)

text \<open>
  A packet whose \<open>N\<close> is at least 1 and at most the capacity of its buffer: the pump
  takes it from the queue and makes one raw write on \<open>t.file.Fd()\<close>, which is the
  handle as long as the file is open, with exactly the first \<open>N\<close> bytes of the
  buffer's array; these are the first \<open>N\<close> bytes the buffer shows when \<open>N\<close> is
  within its length. Then it goes on with its loop.
\<close>

lemma write_pump_writes_packet:
  assumes "ctx tun = Some c" and "\<not> ctx_done w c \<or> pick = Second"
    and "buf (outgoingQueue tun) = pkt # rest"
    and "1 \<le> N pkt" and "N pkt \<le> cap (Buf pkt)"
    and "write_pump_step pick res WLoop tun w = (st, tun', w')"
  shows "st = WLoop \<and> buf (outgoingQueue tun') = rest
     \<and> calls w' = calls w @ [SysWrite (Fd (file_fd tun) w) (take (N pkt) (arr (Buf pkt)))]
     \<and> length (take (N pkt) (arr (Buf pkt))) = N pkt
     \<and> (file_fd tun \<in> open_fds w \<longrightarrow> Fd (file_fd tun) w = file_fd tun)
     \<and> (N pkt \<le> len (Buf pkt) \<longrightarrow>
          take (N pkt) (arr (Buf pkt)) = take (N pkt) (elems (Buf pkt)))"
  using assms(4,5,6)
  by (auto simp: write_pump_dequeues [OF assms(1,2,3)] cap_def elems_def Fd_def min_def
      split: if_splits)

text \<open>
  Once \<open>Close\<close> has closed the file, \<open>t.file.Fd()\<close> is \<open>^uintptr(0)\<close>: a packet the
  write pump still takes is written to that descriptor, not to the handle.
\<close>

lemma write_after_Close_uses_invalid_descriptor:
  "calls (env (run late_run (constructed new_tun new_world))) =
     calls new_world @ [CloseFile 3, SysWrite (2 ^ 64 - 1) [0x60, 0x00, 0x00]]
   \<and> logs (env (run late_run (constructed new_tun new_world))) = [WriteError 9]
   \<and> 3 \<notin> open_fds (env (run late_run (constructed new_tun new_world)))"
  by (simp add: late_run_def eval_defs)

text \<open>
  Claim C7 holds for the packets above and fails for a packet with \<open>N = 0\<close>, which
  respects the bound of \<open>N\<close> by the capacity of the buffer. When the write pump takes
  such a packet from the outgoing queue, \<open>write\<close> is called with the empty slice
  \<open>pkt.Buf[:0]\<close> and takes \<open>&buf[0]\<close> of it: the goroutine panics, the packet is
  gone from the queue, and no system call has been made, where the claim has a raw
  write of exactly \<open>N\<close> bytes.
\<close>

theorem write_pump_empty_packet_panics:
  assumes "ctx tun = Some c" and "\<not> ctx_done w c \<or> pick = Second"
    and "buf (outgoingQueue tun) = pkt # rest"
    and "N pkt = 0"
  shows "write_pump_step pick res WLoop tun w =
           (WCrash, tun\<lparr>outgoingQueue := (outgoingQueue tun)\<lparr>buf := rest\<rparr>\<rparr>, w)
     \<and> N pkt \<le> cap (Buf pkt)"
  using assms(4) by (simp add: write_pump_dequeues [OF assms(1,2,3)])

theorem write_pump_empty_packet_panics_witness:
  "ctx bound_tun = Some 0 \<and> \<not> ctx_done bound_world 0
   \<and> Write First empty_packet bound_tun bound_world = Returns (None, loaded_tun empty_packet)
   \<and> buf (outgoingQueue (loaded_tun empty_packet)) = [empty_packet]
   \<and> N empty_packet = 0 \<and> len (Buf empty_packet) = 0 \<and> cap (Buf empty_packet) = 2048
   \<and> write_pump_step First (0, 0) WLoop (loaded_tun empty_packet) bound_world =
        (WCrash, bound_tun, bound_world)"
proof -
  have h: "ctx (loaded_tun empty_packet) = Some 0" "\<not> ctx_done bound_world 0 \<or> First = Second"
    "buf (outgoingQueue (loaded_tun empty_packet)) = [empty_packet]" "N empty_packet = 0"
    by (simp_all add: loaded_tun_def bound_tun_eval bound_world_eval empty_packet_def)
  have wr: "Write First empty_packet bound_tun bound_world = Returns (None, loaded_tun empty_packet)"
    by (simp add: Write_cases loaded_tun_def bound_tun_eval bound_world_eval new_tun_def
        make_chan_def QUEUE_SIZE_def)
  have emptied: "(loaded_tun empty_packet)\<lparr>outgoingQueue :=
                 (outgoingQueue (loaded_tun empty_packet))\<lparr>buf := []\<rparr>\<rparr> = bound_tun"
    by (simp add: loaded_tun_def bound_tun_eval new_tun_def make_chan_def)
  from write_pump_empty_packet_panics [OF h, of "(0, 0)"] h(3,4) wr emptied show ?thesis
    by (simp add: bound_tun_eval bound_world_eval)
       (simp add: empty_packet_def cap_def PACKET_SIZE_def)
qed

end
